theory Spec2Isabelle
  imports
    Complex_Main
    "HOL-Library.Word"
    "HOL-Library.Char_ord"
    "HOL-Library.List_Lexorder"
begin

section \<open>rct \<^verbatim>\<open>Value.cpp\<close>: values, the cJSON bridge and the two formatters\<close>

text \<open>
  A shallow embedding of \<^verbatim>\<open>src/rct/Value.cpp\<close>. A \<^verbatim>\<open>String\<close> is a sequence of
  bytes with an explicit length (it may hold the byte 0), so it is a \<^typ>\<open>string\<close>; a
  \<^verbatim>\<open>const char *\<close> handed to a C interface is read up to its first NUL byte.
  The functions a formatter calls on its sink, \<^verbatim>\<open>output(buf, len)\<close>, append the first
  \<^verbatim>\<open>len\<close> bytes of \<^verbatim>\<open>buf\<close>; a formatter is modelled by the text it appends, the
  chunks concatenated in call order.
\<close>

subsection \<open>Bytes, C strings and the pieces of \<^verbatim>\<open>printf\<close> the code uses\<close>

type_synonym c_int = "32 word"

definition NUL :: char where
  "NUL = CHR 0x00"

definition quote :: char where
  "quote = CHR 0x22"

definition backslash :: char where
  "backslash = CHR 0x5C"

definition newline :: char where
  "newline = CHR 0x0A"

text \<open>\<^verbatim>\<open>s.constData()\<close> read as a C string: the bytes before the first NUL.\<close>

definition c_str :: "string \<Rightarrow> string" where
  "c_str s = takeWhile (\<lambda>c. c \<noteq> NUL) s"

text \<open>
  \<^verbatim>\<open>output(buf, len)\<close>: the chunk that reaches the sink (\<open>output\<close> is a reserved
  word here, hence the name). Every call in the source passes a length within the buffer.
\<close>

definition sink_output :: "string \<Rightarrow> nat \<Rightarrow> string" where
  "sink_output buf len = take len buf"

text \<open>
  The value of a \<^verbatim>\<open>char\<close> object holding the byte \<open>c\<close>. Whether plain \<^verbatim>\<open>char\<close> is
  signed is fixed by the platform's ABI (signed on x86 and x86-64, unsigned on ARM
  Linux): \<open>sc\<close> says which.
\<close>

definition c_char :: "bool \<Rightarrow> char \<Rightarrow> int" where
  "c_char sc c = (if sc \<and> 128 \<le> (of_char c :: int) then of_char c - 256 else of_char c)"

definition hex_digit :: "nat \<Rightarrow> char" where
  "hex_digit d = ''0123456789abcdef'' ! d"

fun hex_nat :: "nat \<Rightarrow> string" where
  "hex_nat n = (if n < 16 then [hex_digit n] else hex_nat (n div 16) @ [hex_digit (n mod 16)])"

text \<open>
  \<^verbatim>\<open>%04x\<close> applied to an \<^verbatim>\<open>int\<close>: the argument is read as \<^verbatim>\<open>unsigned int\<close>
  (modulo \<open>2^32\<close>) and printed in lowercase hexadecimal, zero-padded to at least
  four digits.
\<close>

definition printf_04x :: "int \<Rightarrow> string" where
  "printf_04x v = (let ds = hex_nat (nat (v mod 2 ^ 32)) in replicate (4 - length ds) CHR ''0'' @ ds)"

text \<open>
  \<^verbatim>\<open>snprintf(buffer, 7, "\\u%04x", ch)\<close>: at most six bytes and the terminator are
  stored.
\<close>

definition snprintf_u :: "int \<Rightarrow> string" where
  "snprintf_u ch = take 6 ([backslash, CHR ''u''] @ printf_04x ch)"

definition dec_digit :: "nat \<Rightarrow> char" where
  "dec_digit d = ''0123456789'' ! d"

fun dec_nat :: "nat \<Rightarrow> string" where
  "dec_nat n = (if n < 10 then [dec_digit n] else dec_nat (n div 10) @ [dec_digit (n mod 10)])"

text \<open>\<^verbatim>\<open>%d\<close> applied to an \<^verbatim>\<open>int\<close>.\<close>

definition printf_d :: "int \<Rightarrow> string" where
  "printf_d v = (if v < 0 then CHR ''-'' # dec_nat (nat (- v)) else dec_nat (nat v))"

text \<open>
  \<^verbatim>\<open>%*s\<close> with width \<open>w\<close>: the string is padded with spaces to at least \<open>\<bar>w\<bar>\<close> bytes,
  on the left for \<open>w \<ge> 0\<close> and on the right for a negative width; it is never cut.
\<close>

definition printf_star_s :: "int \<Rightarrow> string \<Rightarrow> string" where
  "printf_star_s w s =
     (if 0 \<le> w then replicate (nat w - length s) CHR '' '' @ s
      else s @ replicate (nat (- w) - length s) CHR '' '')"

subsection \<open>\<^verbatim>\<open>JSONFormatter\<close>: the \<^verbatim>\<open>escape\<close> lambda (lines 138 to 177)\<close>

text \<open>
  The state of the loop is \<^verbatim>\<open>hasEscaped\<close> and the text sent to the sink so far; \<open>i\<close>
  is the loop index the \<^verbatim>\<open>put\<close> lambda captures by reference.
\<close>

definition put :: "string \<Rightarrow> nat \<Rightarrow> string \<Rightarrow> bool \<times> string \<Rightarrow> bool \<times> string" where
  "put str i escaped st =
     (case st of (hasEscaped, sink) \<Rightarrow>
        if \<not> hasEscaped then
          (True, (if i \<noteq> 0 then sink @ sink_output str i else sink) @ sink_output escaped (length escaped))
        else (True, sink @ sink_output escaped (length escaped)))"

definition escape_step :: "bool \<Rightarrow> string \<Rightarrow> nat \<Rightarrow> bool \<times> string \<Rightarrow> bool \<times> string" where
  "escape_step sc str i st =
     (let c = str ! i; ch = c_char sc c in
      if ch = 8 then put str i [backslash, CHR ''b''] st
      else if ch = 12 then put str i [backslash, CHR ''f''] st
      else if ch = 10 then put str i [backslash, CHR ''n''] st
      else if ch = 9 then put str i [backslash, CHR ''t''] st
      else if ch = 13 then put str i [backslash, CHR ''r''] st
      else if ch = 34 then put str i [backslash, quote] st
      else if ch = 92 then put str i [backslash, backslash] st
      else if ch < 0x20 \<or> ch = 127 then put str i (snprintf_u ch) st
      else if fst st then (fst st, snd st @ sink_output [c] 1)
      else st)"

function escape_loop :: "bool \<Rightarrow> string \<Rightarrow> nat \<Rightarrow> bool \<times> string \<Rightarrow> bool \<times> string" where
  "escape_loop sc str i st =
     (if i < length str then escape_loop sc str (Suc i) (escape_step sc str i st) else st)"
  by pat_completeness auto
termination
  by (relation "measure (\<lambda>(sc, str, i, st). length str - i)") auto

definition escape :: "bool \<Rightarrow> string \<Rightarrow> string" where
  "escape sc str =
     (case escape_loop sc str 0 (False, sink_output [quote] 1) of
        (hasEscaped, sink) \<Rightarrow>
          (if \<not> hasEscaped then sink @ sink_output str (length str) else sink) @ sink_output [quote] 1)"

text \<open>
  The escaping rule in the specification's words: one escape sequence per byte of the
  fixed table; a backslash, \<^verbatim>\<open>u00\<close> and two lowercase hexadecimal digits for the
  other bytes below \<open>0x20\<close> and for 127; every other byte unchanged.
\<close>

definition esc_byte :: "char \<Rightarrow> string" where
  "esc_byte c =
     (let n = (of_char c :: nat) in
      if n = 8 then [backslash, CHR ''b'']
      else if n = 12 then [backslash, CHR ''f'']
      else if n = 10 then [backslash, CHR ''n'']
      else if n = 9 then [backslash, CHR ''t'']
      else if n = 13 then [backslash, CHR ''r'']
      else if n = 34 then [backslash, quote]
      else if n = 92 then [backslash, backslash]
      else if n < 0x20 \<or> n = 127 then
        [backslash, CHR ''u'', CHR ''0'', CHR ''0'', hex_digit (n div 16), hex_digit (n mod 16)]
      else [c])"

definition escape_spec :: "string \<Rightarrow> string" where
  "escape_spec s = [quote] @ concat (map esc_byte s) @ [quote]"

subsection \<open>Values and cJSON nodes\<close>

text \<open>
  The tagged union of \<^verbatim>\<open>Value.h\<close>, one constructor per \<^verbatim>\<open>Type_\<close> tag. An
  \<^verbatim>\<open>int\<close> is a 32-bit word. A \<^verbatim>\<open>double\<close> is modelled by the real number it denotes
  (NaN and the infinities are outside the model); conversion from \<^verbatim>\<open>int\<close> and
  comparison with \<^verbatim>\<open>==\<close> are exact on these. A \<^verbatim>\<open>Custom\<close> value holds a
  \<^verbatim>\<open>shared_ptr\<close> to its payload: \<open>None\<close> is the null pointer, \<open>Some s\<close> a payload whose
  \<^verbatim>\<open>toString()\<close> returns \<open>s\<close>. A \<^verbatim>\<open>Date\<close> holds its time value.
\<close>

datatype Value =
    Invalid
  | Undefined
  | Boolean bool
  | Integer c_int
  | Double real
  | String string
  | Custom "string option"
  | Map "(string \<times> Value) list"
  | List "Value list"
  | Date c_int

text \<open>
  A node of \<^verbatim>\<open>cJSON.h\<close> by its \<^verbatim>\<open>type\<close>: a number carries \<^verbatim>\<open>valueint\<close> and
  \<^verbatim>\<open>valuedouble\<close>, a string its \<^verbatim>\<open>valuestring\<close>, an array its children in the
  order of the \<^verbatim>\<open>next\<close> links, an object its children each with its \<^verbatim>\<open>string\<close>
  member (the key).
\<close>

datatype cJSON =
    cJSON_False
  | cJSON_True
  | cJSON_NULL
  | cJSON_Number c_int real
  | cJSON_String string
  | cJSON_Array "cJSON list"
  | cJSON_Object "(string \<times> cJSON) list"
  | cJSON_RawString string

text \<open>
  What the platform and the C library fix: the signedness of plain \<^verbatim>\<open>char\<close>, the text
  \<^verbatim>\<open>%g\<close> prints for a double, and \<^verbatim>\<open>String::formatTime\<close>.
\<close>

record platform =
  char_signed :: bool
  printf_g :: "real \<Rightarrow> string"
  formatTime :: "c_int \<Rightarrow> string"

text \<open>
  The parser and the printers of the cJSON library; \<^verbatim>\<open>cJSON_Parse\<close> returns a null
  pointer (\<open>None\<close>) for a text it does not accept.
\<close>

record json_library =
  cJSON_Parse :: "string \<Rightarrow> cJSON option"
  cJSON_Print :: "cJSON \<Rightarrow> string"
  cJSON_PrintUnformatted :: "cJSON \<Rightarrow> string"

text \<open>
  Modelled from the spec: the container \<^verbatim>\<open>Map<String, Value>\<close> (\<^verbatim>\<open>Map.h\<close> is not
  among the sources), a mapping with unique keys and a stable iteration order. It is the
  list of its entries in iteration order, ascending in the byte-wise order of the keys as a
  \<^verbatim>\<open>std::map\<close> keeps them; \<open>map_assign m k v\<close> is \<^verbatim>\<open>m[k] = v\<close>.
\<close>

fun map_assign :: "(string \<times> 'v) list \<Rightarrow> string \<Rightarrow> 'v \<Rightarrow> (string \<times> 'v) list" where
  "map_assign [] k v = [(k, v)]"
| "map_assign ((k', v') # m) k v =
     (if k < k' then (k, v) # (k', v') # m
      else if k = k' then (k, v) # m
      else (k', v') # map_assign m k v)"

text \<open>
  Modelled from the spec: \<^verbatim>\<open>Value::toInteger\<close> (\<^verbatim>\<open>Value.h\<close> is not among the sources).
  On an \<^verbatim>\<open>Integer\<close> it is the payload, on a \<^verbatim>\<open>Date\<close> the underlying time value; for the
  other tags the specification recommends a default of zero.
\<close>

fun toInteger :: "Value \<Rightarrow> c_int" where
  "toInteger (Integer i) = i"
| "toInteger (Date t) = t"
| "toInteger _ = 0"

text \<open>
  The conversion \<^verbatim>\<open>(int)num\<close> truncates towards zero. Outside the range of \<^verbatim>\<open>int\<close>
  its result is not defined by the language; the model wraps. Whatever \<^verbatim>\<open>int\<close> it
  yields there differs from the value converted (lemma \<open>out_of_int_range_differs\<close>), which
  is all that \<^verbatim>\<open>fromCJSON\<close> asks of it.
\<close>

definition c_int_of_double :: "real \<Rightarrow> c_int" where
  "c_int_of_double d = word_of_int (if 0 \<le> d then \<lfloor>d\<rfloor> else \<lceil>d\<rceil>)"

text \<open>
  Modelled from the spec: the number node the cJSON library builds for a value, both in
  \<^verbatim>\<open>cJSON_CreateNumber\<close> and in its parser (\<^verbatim>\<open>cJSON.c\<close> is not among the sources): the
  node stores the floating value and its integer truncation.
\<close>

definition cJSON_CreateNumber :: "real \<Rightarrow> cJSON" where
  "cJSON_CreateNumber num = cJSON_Number (c_int_of_double num) num"

subsection \<open>\<^verbatim>\<open>fromCJSON\<close> and \<^verbatim>\<open>Value::fromJSON\<close> (lines 50 to 95)\<close>

text \<open>
  The two loops over \<^verbatim>\<open>object->child\<close> carry the container \<^verbatim>\<open>values\<close> they fill.
  \<^verbatim>\<open>String(const char *)\<close> reads a C string. A raw string node meets no \<^verbatim>\<open>case\<close> of
  the \<^verbatim>\<open>switch\<close> and falls to \<^verbatim>\<open>return Value()\<close>.
\<close>

fun fromCJSON :: "cJSON \<Rightarrow> Value"
  and fromCJSON_array :: "cJSON list \<Rightarrow> Value list \<Rightarrow> Value list"
  and fromCJSON_object :: "(string \<times> cJSON) list \<Rightarrow> (string \<times> Value) list \<Rightarrow> (string \<times> Value) list"
where
  "fromCJSON cJSON_False = Boolean False"
| "fromCJSON cJSON_True = Boolean True"
| "fromCJSON cJSON_NULL = Invalid"
| "fromCJSON (cJSON_Number valueint valuedouble) =
     (if real_of_int (sint valueint) = valuedouble then Integer valueint else Double valuedouble)"
| "fromCJSON (cJSON_String valuestring) = String (c_str valuestring)"
| "fromCJSON (cJSON_Array children) = List (fromCJSON_array children [])"
| "fromCJSON (cJSON_Object children) = Map (fromCJSON_object children [])"
| "fromCJSON (cJSON_RawString valuestring) = Invalid"
| "fromCJSON_array [] values = values"
| "fromCJSON_array (child # rest) values = fromCJSON_array rest (values @ [fromCJSON child])"
| "fromCJSON_object [] values = values"
| "fromCJSON_object ((key, child) # rest) values =
     fromCJSON_object rest (map_assign values (c_str key) (fromCJSON child))"

text \<open>The pair is the returned value and what is stored through \<^verbatim>\<open>ok\<close>.\<close>

definition fromJSON :: "json_library \<Rightarrow> string \<Rightarrow> Value \<times> bool" where
  "fromJSON lib json =
     (case cJSON_Parse lib json of
        None \<Rightarrow> (Invalid, False)
      | Some obj \<Rightarrow> (fromCJSON obj, True))"

subsection \<open>\<^verbatim>\<open>Value::toCJSON\<close> and \<^verbatim>\<open>Value::toJSON\<close> (lines 97 to 130, 243 to 251)\<close>

text \<open>
  \<^verbatim>\<open>cJSON_CreateString\<close> and \<^verbatim>\<open>cJSON_AddItemToObject\<close> take C strings and copy them;
  \<^verbatim>\<open>toJSON\<close> builds its \<^verbatim>\<open>String\<close> from the C string the printer returns.
  Allocation failure in the library is outside the model.
\<close>

fun toCJSON :: "Value \<Rightarrow> cJSON"
  and toCJSON_list :: "Value list \<Rightarrow> cJSON list"
  and toCJSON_map :: "(string \<times> Value) list \<Rightarrow> (string \<times> cJSON) list"
where
  "toCJSON (Boolean b) = (if b then cJSON_True else cJSON_False)"
| "toCJSON (Date t) = cJSON_CreateNumber (real_of_int (sint (toInteger (Date t))))"
| "toCJSON (Integer i) = cJSON_CreateNumber (real_of_int (sint (toInteger (Integer i))))"
| "toCJSON (Double d) = cJSON_CreateNumber d"
| "toCJSON (String s) = cJSON_String (c_str s)"
| "toCJSON (List l) = cJSON_Array (toCJSON_list l)"
| "toCJSON (Map m) = cJSON_Object (toCJSON_map m)"
| "toCJSON Invalid = cJSON_NULL"
| "toCJSON Undefined = cJSON_NULL"
| "toCJSON (Custom custom) =
     (case custom of
        Some text \<Rightarrow> cJSON_RawString (c_str text)
      | None \<Rightarrow> cJSON_NULL)"
| "toCJSON_list [] = []"
| "toCJSON_list (v # rest) = toCJSON v # toCJSON_list rest"
| "toCJSON_map [] = []"
| "toCJSON_map ((key, v) # rest) = (c_str key, toCJSON v) # toCJSON_map rest"

definition toJSON :: "json_library \<Rightarrow> Value \<Rightarrow> bool \<Rightarrow> string" where
  "toJSON lib v pretty =
     (let json = toCJSON v;
          formatted = (if pretty then cJSON_Print lib json else cJSON_PrintUnformatted lib json)
      in c_str formatted)"

subsection \<open>\<^verbatim>\<open>JSONFormatter::format\<close> (lines 135 to 240)\<close>

text \<open>
  The result is the text sent to the sink, or \<open>None\<close> where the code dereferences the
  null pointer of a \<^verbatim>\<open>Custom\<close> value.
\<close>

fun JSONFormatter_format :: "platform \<Rightarrow> Value \<Rightarrow> string option"
  and JSONFormatter_map :: "platform \<Rightarrow> bool \<Rightarrow> (string \<times> Value) list \<Rightarrow> string option"
  and JSONFormatter_list :: "platform \<Rightarrow> bool \<Rightarrow> Value list \<Rightarrow> string option"
where
  "JSONFormatter_format p Invalid = Some (sink_output ''null'' 4)"
| "JSONFormatter_format p Undefined = Some (sink_output ''null'' 4)"
| "JSONFormatter_format p (Boolean b) =
     Some (if b then sink_output ''true'' 4 else sink_output ''false'' 5)"
| "JSONFormatter_format p (Integer i) = Some (printf_d (sint (toInteger (Integer i))))"
| "JSONFormatter_format p (Double d) = Some (printf_g p d)"
| "JSONFormatter_format p (String s) = Some (escape (char_signed p) s)"
| "JSONFormatter_format p (Custom custom) =
     (case custom of
        None \<Rightarrow> None
      | Some text \<Rightarrow> Some (escape (char_signed p) text))"
| "JSONFormatter_format p (Map m) =
     (case JSONFormatter_map p True m of
        None \<Rightarrow> None
      | Some body \<Rightarrow> Some (sink_output ''{'' 1 @ body @ sink_output ''}'' 1))"
| "JSONFormatter_format p (List l) =
     (case JSONFormatter_list p True l of
        None \<Rightarrow> None
      | Some body \<Rightarrow> Some (sink_output ''['' 1 @ body @ sink_output '']'' 1))"
| "JSONFormatter_format p (Date t) = Some (escape (char_signed p) (formatTime p t))"
| "JSONFormatter_map p first [] = Some []"
| "JSONFormatter_map p first ((key, v) # rest) =
     (case JSONFormatter_format p v of
        None \<Rightarrow> None
      | Some s \<Rightarrow>
          (case JSONFormatter_map p False rest of
             None \<Rightarrow> None
           | Some r \<Rightarrow>
               Some ((if \<not> first then sink_output '','' 1 else []) @
                     escape (char_signed p) key @ sink_output '':'' 1 @ s @ r)))"
| "JSONFormatter_list p first [] = Some []"
| "JSONFormatter_list p first (v # rest) =
     (case JSONFormatter_format p v of
        None \<Rightarrow> None
      | Some s \<Rightarrow>
          (case JSONFormatter_list p False rest of
             None \<Rightarrow> None
           | Some r \<Rightarrow> Some ((if \<not> first then sink_output '','' 1 else []) @ s @ r)))"

subsection \<open>\<^verbatim>\<open>StringFormatter::format\<close> and \<^verbatim>\<open>Value::format\<close> (lines 253 to 329)\<close>

text \<open>
  The member \<^verbatim>\<open>indent\<close> is state: each function takes its value at the call and
  returns its value at the return, with the text sent to the sink. In the \<^verbatim>\<open>Map\<close> loop
  the nested call appends to the local \<^verbatim>\<open>str\<close>, which starts as the result of
  \<^verbatim>\<open>String::format<128>("%*s%s: ", indent - 1, " ", key)\<close>; \<^verbatim>\<open>String::format\<close>
  (\<^verbatim>\<open>String.h\<close> is not among the sources) is taken to return the whole text that
  \<^verbatim>\<open>printf\<close> would print, 128 being the size of its first buffer. At the end of
  \<^verbatim>\<open>format\<close> a non-empty \<^verbatim>\<open>str\<close> is sent whole.
\<close>

fun StringFormatter_format :: "platform \<Rightarrow> int \<Rightarrow> Value \<Rightarrow> (int \<times> string) option"
  and StringFormatter_map :: "platform \<Rightarrow> int \<Rightarrow> (string \<times> Value) list \<Rightarrow> (int \<times> string) option"
  and StringFormatter_list :: "platform \<Rightarrow> int \<Rightarrow> bool \<Rightarrow> Value list \<Rightarrow> (int \<times> string) option"
where
  "StringFormatter_format p indent Invalid = Some (indent, sink_output ''null'' 4)"
| "StringFormatter_format p indent Undefined = Some (indent, sink_output ''null'' 4)"
| "StringFormatter_format p indent (Boolean b) =
     Some (indent, if b then sink_output ''true'' 4 else sink_output ''false'' 5)"
| "StringFormatter_format p indent (Integer i) =
     Some (indent, printf_d (sint (toInteger (Integer i))))"
| "StringFormatter_format p indent (Double d) = Some (indent, printf_g p d)"
| "StringFormatter_format p indent (String s) =
     Some (indent, if s \<noteq> [] then sink_output s (length s) else [])"
| "StringFormatter_format p indent (Custom custom) =
     (case custom of
        None \<Rightarrow> None
      | Some text \<Rightarrow> Some (indent, if text \<noteq> [] then sink_output text (length text) else []))"
| "StringFormatter_format p indent (Map m) =
     (case StringFormatter_map p (indent + 1) m of
        None \<Rightarrow> None
      | Some (indent', lines) \<Rightarrow> Some (indent' - 1, lines))"
| "StringFormatter_format p indent (List l) =
     (case StringFormatter_list p indent True l of
        None \<Rightarrow> None
      | Some (indent', body) \<Rightarrow>
          Some (indent', sink_output ''[ '' 1 @ body @ sink_output '' ]'' 2))"
| "StringFormatter_format p indent (Date t) =
     Some (indent, let str = formatTime p t in if str \<noteq> [] then sink_output str (length str) else [])"
| "StringFormatter_map p indent [] = Some (indent, [])"
| "StringFormatter_map p indent ((key, v) # rest) =
     (let str = printf_star_s (indent - 1) (c_str '' '') @ c_str key @ '': '' in
      case StringFormatter_format p indent v of
        None \<Rightarrow> None
      | Some (indent1, appended) \<Rightarrow>
          (case StringFormatter_map p indent1 rest of
             None \<Rightarrow> None
           | Some (indent2, lines) \<Rightarrow>
               Some (indent2,
                     sink_output (str @ appended) (length (str @ appended)) @
                     sink_output [newline] 1 @ lines)))"
| "StringFormatter_list p indent first [] = Some (indent, [])"
| "StringFormatter_list p indent first (v # rest) =
     (case StringFormatter_format p indent v of
        None \<Rightarrow> None
      | Some (indent1, s) \<Rightarrow>
          (case StringFormatter_list p indent1 False rest of
             None \<Rightarrow> None
           | Some (indent2, r) \<Rightarrow>
               Some (indent2, (if \<not> first then sink_output '', '' 1 else []) @ s @ r)))"

text \<open>
  \<^verbatim>\<open>Value::format\<close>: a fresh \<^verbatim>\<open>StringFormatter\<close>, whose \<^verbatim>\<open>indent\<close> is 0.
  Modelled from the spec: \<^verbatim>\<open>Formatter::toString\<close> (\<^verbatim>\<open>Value.h\<close> is not among the
  sources), which collects the chunks sent to the sink, in call order, into one text.
\<close>

definition Value_format :: "platform \<Rightarrow> Value \<Rightarrow> string option" where
  "Value_format p v = map_option snd (StringFormatter_format p 0 v)"

text \<open>
  A platform for the concrete examples below: plain \<^verbatim>\<open>char\<close> signed, as on x86-64.
  The examples hold no \<^verbatim>\<open>Double\<close> and no \<^verbatim>\<open>Date\<close>, so the two renderers are never
  called and are left empty.
\<close>

definition x86_64 :: platform where
  "x86_64 = \<lparr>char_signed = True, printf_g = (\<lambda>d. []), formatTime = (\<lambda>t. [])\<rparr>"

subsection \<open>Definitions used to state the properties\<close>

text \<open>
  The invariant of the escape loop: once something was escaped the sink holds the opening
  quote and the escaped form of the first \<open>i\<close> bytes; until then it holds the quote
  alone and none of the first \<open>i\<close> bytes needs escaping.
\<close>

definition escape_inv :: "string \<Rightarrow> nat \<Rightarrow> bool \<times> string \<Rightarrow> bool" where
  "escape_inv str i st \<longleftrightarrow>
     i \<le> length str \<and>
     (if fst st then snd st = quote # concat (map esc_byte (take i str))
      else snd st = [quote] \<and> concat (map esc_byte (take i str)) = take i str)"

text \<open>Texts joined by a separator.\<close>

fun separated :: "string \<Rightarrow> string list \<Rightarrow> string" where
  "separated sep [] = []"
| "separated sep [x] = x"
| "separated sep (x # y # ys) = x @ sep @ separated sep (y # ys)"

text \<open>
  The line the code emits for one \<^verbatim>\<open>Map\<close> entry at nesting depth \<open>d\<close>, for the text
  \<open>tx\<close> of its formatted value: \<open>d - 1\<close> spaces but at least one, the key as a C
  string, a colon and a space, the text, a newline.
\<close>

definition map_line :: "nat \<Rightarrow> string \<Rightarrow> string \<Rightarrow> string" where
  "map_line d key tx = replicate (max 1 (d - 1)) CHR '' '' @ c_str key @ '': '' @ tx @ [newline]"

text \<open>
  Values built only from \<^verbatim>\<open>Boolean\<close>, \<^verbatim>\<open>Integer\<close>, \<^verbatim>\<open>Double\<close>, \<^verbatim>\<open>String\<close>,
  \<^verbatim>\<open>List\<close> and \<^verbatim>\<open>Map\<close>. A \<^verbatim>\<open>Map\<close> of the program is a container with its
  invariant: the list that stands for it has its keys in strictly ascending order.
\<close>

fun plain :: "Value \<Rightarrow> bool"
  and plain_list :: "Value list \<Rightarrow> bool"
  and plain_map :: "(string \<times> Value) list \<Rightarrow> bool"
where
  "plain (Boolean b) = True"
| "plain (Integer i) = True"
| "plain (Double d) = True"
| "plain (String s) = True"
| "plain (List l) = plain_list l"
| "plain (Map m) = (plain_map m \<and> sorted_wrt (<) (map fst m))"
| "plain Invalid = False"
| "plain Undefined = False"
| "plain (Custom custom) = False"
| "plain (Date t) = False"
| "plain_list [] = True"
| "plain_list (v # rest) = (plain v \<and> plain_list rest)"
| "plain_map [] = True"
| "plain_map ((key, v) # rest) = (plain v \<and> plain_map rest)"

text \<open>
  The plain values that survive the bridge: no \<^verbatim>\<open>Double\<close> holds an integer in the
  range of \<^verbatim>\<open>int\<close>, and no string and no key holds a NUL byte.
\<close>

fun roundtrip_safe :: "Value \<Rightarrow> bool"
  and roundtrip_safe_list :: "Value list \<Rightarrow> bool"
  and roundtrip_safe_map :: "(string \<times> Value) list \<Rightarrow> bool"
where
  "roundtrip_safe (Boolean b) = True"
| "roundtrip_safe (Integer i) = True"
| "roundtrip_safe (Double d) =
     (\<not> (real_of_int \<lfloor>d\<rfloor> = d \<and> - (2 ^ 31) \<le> d \<and> d < 2 ^ 31))"
| "roundtrip_safe (String s) = (NUL \<notin> set s)"
| "roundtrip_safe (List l) = roundtrip_safe_list l"
| "roundtrip_safe (Map m) = roundtrip_safe_map m"
| "roundtrip_safe Invalid = False"
| "roundtrip_safe Undefined = False"
| "roundtrip_safe (Custom custom) = False"
| "roundtrip_safe (Date t) = False"
| "roundtrip_safe_list [] = True"
| "roundtrip_safe_list (v # rest) = (roundtrip_safe v \<and> roundtrip_safe_list rest)"
| "roundtrip_safe_map [] = True"
| "roundtrip_safe_map ((key, v) # rest) =
     (NUL \<notin> set key \<and> roundtrip_safe v \<and> roundtrip_safe_map rest)"

text \<open>
  A stand-in for the cJSON library in concrete examples: a printer and a parser that
  know the listed pairs of a tree and its text, and nothing else.
\<close>

definition table_library :: "(cJSON \<times> string) list \<Rightarrow> json_library" where
  "table_library tab =
     \<lparr>cJSON_Parse = map_of (map (\<lambda>(node, tx). (tx, node)) tab),
      cJSON_Print = (\<lambda>node. case map_of tab node of Some tx \<Rightarrow> tx | None \<Rightarrow> []),
      cJSON_PrintUnformatted = (\<lambda>node. case map_of tab node of Some tx \<Rightarrow> tx | None \<Rightarrow> [])\<rparr>"

text \<open>An example value and its compact JSON text.\<close>

definition example_value :: Value where
  "example_value =
     Map [(''a'', List [Boolean True, Integer 1, Double 1.5, Double 10000000000, String ''x'']),
          (''b'', Map [])]"

definition example_text :: string where
  "example_text =
     ''{'' @ [quote] @ ''a'' @ [quote] @ '':[true,1,1.5,10000000000,'' @ [quote] @ ''x'' @ [quote] @
     ''],'' @ [quote] @ ''b'' @ [quote] @ '':{}}''"

text \<open>
  A platform for the example of a \<^verbatim>\<open>Date\<close>: plain \<^verbatim>\<open>char\<close> signed, and a
  \<^verbatim>\<open>String::formatTime\<close> that prints the first two seconds of the epoch in UTC.
\<close>

definition utc_clock :: platform where
  "utc_clock =
     \<lparr>char_signed = True, printf_g = (\<lambda>d. []),
      formatTime = (\<lambda>t. if t = 0 then ''1970-01-01 00:00:00'' else ''1970-01-01 00:00:01'')\<rparr>"

section \<open>Properties\<close>

subsection \<open>The escape loop\<close>

lemmas escape_defs =
  escape_def escape_step_def put_def sink_output_def c_char_def snprintf_u_def printf_04x_def
  hex_digit_def quote_def backslash_def

lemma hex_nat_small: "n < 16 \<Longrightarrow> hex_nat n = [hex_digit n]"
  by simp

lemma hex_nat_byte:
  assumes "16 \<le> n" and "n < 256"
  shows "hex_nat n = [hex_digit (n div 16), hex_digit (n mod 16)]"
proof -
  from assms have "n div 16 < 16" by simp
  then have "hex_nat (n div 16) = [hex_digit (n div 16)]" by (rule hex_nat_small)
  moreover have "hex_nat n = hex_nat (n div 16) @ [hex_digit (n mod 16)]"
    using assms by (subst hex_nat.simps) simp
  ultimately show ?thesis by simp
qed

lemma printf_04x_byte:
  assumes "n < 256"
  shows "printf_04x (int n) = [CHR ''0'', CHR ''0'', hex_digit (n div 16), hex_digit (n mod 16)]"
proof -
  have r3: "replicate 3 c = [c, c, c]" for c :: char by (simp add: numeral_3_eq_3)
  have r2: "replicate 2 c = [c, c]" for c :: char by (simp add: numeral_2_eq_2)
  have m: "nat (int n mod 4294967296) = n" using assms by simp
  show ?thesis
  proof (cases "n < 16")
    case True
    then have "hex_nat n = [hex_digit n]" by (rule hex_nat_small)
    moreover have "hex_digit (n div 16) = CHR ''0''" using True by (simp add: hex_digit_def)
    ultimately show ?thesis using True
      by (simp add: printf_04x_def m r3 del: hex_nat.simps)
  next
    case False
    then have "hex_nat n = [hex_digit (n div 16), hex_digit (n mod 16)]"
      using assms by (intro hex_nat_byte) simp_all
    then show ?thesis
      by (simp add: printf_04x_def m r2 del: hex_nat.simps)
  qed
qed

lemma snprintf_u_byte:
  assumes "n < 256"
  shows "snprintf_u (int n) =
    [backslash, CHR ''u'', CHR ''0'', CHR ''0'', hex_digit (n div 16), hex_digit (n mod 16)]"
  by (simp add: snprintf_u_def printf_04x_byte [OF assms])

lemma of_char_less_256: "(of_char c :: nat) < 256"
  by (rule nat_of_char_less_256)

lemma int_of_char: "int (of_char c) = (of_char c :: int)"
  by (rule of_nat_of_char)

text \<open>One step of the loop, for a byte that \<^verbatim>\<open>char\<close> reads as its own value.\<close>

lemma escape_step_byte:
  assumes "c_char sc (str ! i) = int (of_char (str ! i))"
  shows "escape_step sc str i (h, sink) =
    (if esc_byte (str ! i) = [str ! i] then (h, if h then sink @ [str ! i] else sink)
     else (True, (if h then sink else sink @ take i str) @ esc_byte (str ! i)))"
proof -
  let ?n = "of_char (str ! i) :: nat"
  have lt: "?n < 256" by (rule of_char_less_256)
  have u: "?n < 32 \<or> ?n = 127 \<Longrightarrow> snprintf_u (int ?n) =
      [backslash, CHR ''u'', CHR ''0'', CHR ''0'', hex_digit (?n div 16), hex_digit (?n mod 16)]"
    by (rule snprintf_u_byte [OF lt])
  show ?thesis
    using u unfolding escape_step_def Let_def assms
    by (auto simp: esc_byte_def Let_def put_def sink_output_def)
qed

lemma escape_inv_step:
  assumes inv: "escape_inv str i st" and i: "i < length str"
    and rd: "c_char sc (str ! i) = int (of_char (str ! i))"
  shows "escape_inv str (Suc i) (escape_step sc str i st)"
proof -
  obtain h sink where st: "st = (h, sink)" by (cases st)
  have tk: "take (Suc i) str = take i str @ [str ! i]"
    using i by (rule take_Suc_conv_app_nth)
  show ?thesis
    using inv i
    by (auto simp: st escape_step_byte [OF rd] escape_inv_def tk)
qed

lemma escape_inv_loop:
  assumes "escape_inv str i st"
    and "\<forall>c \<in> set str. c_char sc c = int (of_char c)"
  shows "escape_inv str (length str) (escape_loop sc str i st)"
  using assms
proof (induction sc str i st rule: escape_loop.induct)
  case (1 sc str i st)
  show ?case
  proof (cases "i < length str")
    case True
    then have "c_char sc (str ! i) = int (of_char (str ! i))"
      using "1.prems"(2) by simp
    with "1.prems"(1) True have "escape_inv str (Suc i) (escape_step sc str i st)"
      by (intro escape_inv_step)
    with True "1.IH" "1.prems"(2) show ?thesis
      by (subst escape_loop.simps) simp
  next
    case False
    with "1.prems"(1) have "i = length str" by (simp add: escape_inv_def)
    with "1.prems"(1) show ?thesis
      by (subst escape_loop.simps) simp
  qed
qed

text \<open>
  Where every byte of the string is read by \<^verbatim>\<open>char\<close> as its own value, the loop
  emits what the escaping rule says, byte by byte.
\<close>

lemma escape_eq_spec:
  assumes "\<forall>c \<in> set str. c_char sc c = int (of_char c)"
  shows "escape sc str = escape_spec str"
proof -
  have "escape_inv str 0 (False, [quote])"
    by (simp add: escape_inv_def)
  then have "escape_inv str (length str) (escape_loop sc str 0 (False, [quote]))"
    using assms by (rule escape_inv_loop)
  then show ?thesis
    by (cases "escape_loop sc str 0 (False, [quote])")
      (auto simp: escape_inv_def escape_def escape_spec_def sink_output_def)
qed

lemma escape_unsigned_char: "escape False str = escape_spec str"
  by (rule escape_eq_spec) (simp add: c_char_def int_of_char)

lemma escape_ascii:
  assumes "\<forall>c \<in> set str. (of_char c :: nat) < 128"
  shows "escape sc str = escape_spec str"
proof (rule escape_eq_spec)
  show "\<forall>c \<in> set str. c_char sc c = int (of_char c)"
  proof
    fix c assume "c \<in> set str"
    with assms have "(of_char c :: nat) < 128" by simp
    then have "int (of_char c) < 128" by simp
    then have "(of_char c :: int) < 128" by (simp only: int_of_char)
    then show "c_char sc c = int (of_char c)" by (simp add: c_char_def int_of_char)
  qed
qed

lemma escape_as_specified:
  assumes "sc \<longrightarrow> (\<forall>c \<in> set str. (of_char c :: nat) < 128)"
  shows "escape sc str = escape_spec str"
proof (cases sc)
  case True
  with assms show ?thesis by (intro escape_ascii) simp
next
  case False
  then show ?thesis by (simp add: escape_unsigned_char)
qed

lemma concat_esc_byte_id:
  "\<forall>c \<in> set s. esc_byte c = [c] \<Longrightarrow> concat (map esc_byte s) = s"
  by (induction s) simp_all

lemma escape_nothing_to_escape:
  assumes "\<forall>c \<in> set str. esc_byte c = [c]"
    and "\<forall>c \<in> set str. c_char sc c = int (of_char c)"
  shows "escape sc str = [quote] @ str @ [quote]"
proof -
  have "concat (map esc_byte str) = str"
    using assms(1) by (induction str) simp_all
  then show ?thesis
    using escape_eq_spec [OF assms(2)] by (simp add: escape_spec_def)
qed

text \<open>Whatever the signedness, the loop only appends to the sink.\<close>

lemma escape_step_appends: "\<exists>t. snd (escape_step sc str i st) = snd st @ t"
  by (cases st) (auto simp: escape_step_def Let_def put_def)

lemma escape_loop_appends: "\<exists>t. snd (escape_loop sc str i st) = snd st @ t"
proof (induction sc str i st rule: escape_loop.induct)
  case (1 sc str i st)
  show ?case
  proof (cases "i < length str")
    case True
    from "1.IH" [OF True] obtain t where
      t: "snd (escape_loop sc str (Suc i) (escape_step sc str i st)) = snd (escape_step sc str i st) @ t"
      by blast
    obtain t' where "snd (escape_step sc str i st) = snd st @ t'"
      using escape_step_appends by blast
    with t True show ?thesis
      by (subst escape_loop.simps) simp
  next
    case False
    then show ?thesis by (subst escape_loop.simps) simp
  qed
qed

lemma escape_quoted: "\<exists>body. escape sc str = quote # body @ [quote]"
proof -
  obtain h sink where r: "escape_loop sc str 0 (False, [quote]) = (h, sink)"
    by (cases "escape_loop sc str 0 (False, [quote])")
  obtain t where "snd (escape_loop sc str 0 (False, [quote])) = snd (False, [quote]) @ t"
    using escape_loop_appends by blast
  with r have "sink = quote # t" by simp
  with r show ?thesis by (simp add: escape_def sink_output_def)
qed

text \<open>
  C1. The claim: the JSON streaming formatter escapes each byte by the fixed table,
  writes the other bytes below \<open>0x20\<close> and 127 as a backslash, \<^verbatim>\<open>u00\<close> and two
  lowercase hexadecimal digits, and passes every other byte, those from \<open>0x80\<close> up
  included, through unchanged. The lemmas above show this for every string whose bytes
  are below \<open>0x80\<close>, and for every string where plain \<^verbatim>\<open>char\<close> is unsigned. Where
  plain \<^verbatim>\<open>char\<close> is signed a byte from \<open>0x80\<close> up is negative, so \<^verbatim>\<open>ch < 0x20\<close>
  holds, \<^verbatim>\<open>%04x\<close> prints the sign-extended value in eight digits and the seven-byte
  buffer keeps a backslash, \<^verbatim>\<open>u\<close> and \<^verbatim>\<open>ffff\<close>: the two bytes \<open>0xC3 0xA9\<close> of a
  UTF-8 encoded letter are emitted as two such sequences between the quotes.
\<close>

theorem escape_high_bytes_signed_char:
  "escape True [CHR 0xC3, CHR 0xA9] =
     [quote, backslash, CHR ''u'', CHR ''f'', CHR ''f'', CHR ''f'', CHR ''f'',
      backslash, CHR ''u'', CHR ''f'', CHR ''f'', CHR ''f'', CHR ''f'', quote]"
  by (simp add: escape_defs)

subsection \<open>The bridge between values and cJSON trees\<close>

lemma c_str_no_NUL: "NUL \<notin> set s \<Longrightarrow> c_str s = s"
  by (auto simp: c_str_def takeWhile_eq_all_conv)

lemma c_str_NUL_free: "NUL \<notin> set (c_str s)"
  by (auto simp: c_str_def dest: set_takeWhileD)

lemma c_str_idem: "c_str (c_str s) = c_str s"
  by (rule c_str_no_NUL) (rule c_str_NUL_free)

lemma c_str_eq_iff: "c_str s = s \<longleftrightarrow> NUL \<notin> set s"
  using c_str_NUL_free [of s] c_str_no_NUL [of s] by auto

lemma sint_c_int_of_int:
  "sint (word_of_int k :: c_int) = k \<longleftrightarrow> - (2 ^ 31) \<le> k \<and> k < 2 ^ 31"
  by (simp add: sint_sbintrunc' signed_take_bit_int_eq_self_iff)

lemma c_int_of_double_of_int:
  "c_int_of_double (real_of_int k) = word_of_int k"
  by (simp add: c_int_of_double_def)

lemma c_int_of_double_sint:
  "c_int_of_double (real_of_int (sint i)) = i"
proof -
  have "word_of_int (sint i) = i" by simp
  then show ?thesis by (simp only: c_int_of_double_of_int)
qed

lemma real_sint_eq_iff:
  "real_of_int (sint (word_of_int k :: c_int)) = real_of_int k \<longleftrightarrow> - (2 ^ 31) \<le> k \<and> k < 2 ^ 31"
  by (simp only: of_int_eq_iff sint_c_int_of_int)

text \<open>
  A number node built by the library becomes an \<^verbatim>\<open>Integer\<close> exactly when its value is
  an integer in the range of \<^verbatim>\<open>int\<close>.
\<close>

lemma fromCJSON_CreateNumber:
  "fromCJSON (cJSON_CreateNumber d) =
     (if d \<in> \<int> \<and> - (2 ^ 31) \<le> d \<and> d < 2 ^ 31 then Integer (word_of_int \<lfloor>d\<rfloor>) else Double d)"
proof (cases "d \<in> \<int>")
  case True
  then obtain k where d: "d = real_of_int k" by (auto elim: Ints_cases)
  have "real_of_int (- (2 ^ 31)) \<le> real_of_int k \<longleftrightarrow> - (2 ^ 31) \<le> k"
    by (rule of_int_le_iff)
  then have "- (2 ^ 31) \<le> real_of_int k \<longleftrightarrow> - (2 ^ 31) \<le> k"
    by simp
  moreover have "real_of_int k < real_of_int (2 ^ 31) \<longleftrightarrow> k < 2 ^ 31"
    by (rule of_int_less_iff)
  then have "real_of_int k < 2 ^ 31 \<longleftrightarrow> k < 2 ^ 31"
    by simp
  ultimately show ?thesis
    using real_sint_eq_iff [of k]
    by (simp add: d cJSON_CreateNumber_def c_int_of_double_of_int del: of_int_sint)
next
  case False
  then have "real_of_int j \<noteq> d" for j by auto
  with False show ?thesis
    by (simp add: cJSON_CreateNumber_def del: of_int_sint)
qed

lemma floor_eq_iff_Ints: "real_of_int \<lfloor>d\<rfloor> = d \<longleftrightarrow> d \<in> \<int>"
  by (auto elim: Ints_cases)

lemma double_node_iff:
  "fromCJSON (cJSON_CreateNumber d) = Double d \<longleftrightarrow>
     \<not> (real_of_int \<lfloor>d\<rfloor> = d \<and> - (2 ^ 31) \<le> d \<and> d < 2 ^ 31)"
proof (cases "d \<in> \<int> \<and> - (2 ^ 31) \<le> d \<and> d < 2 ^ 31")
  case True
  then have "real_of_int \<lfloor>d\<rfloor> = d" by (simp only: floor_eq_iff_Ints)
  with True show ?thesis by (simp only: fromCJSON_CreateNumber) simp
next
  case False
  then have "\<not> (real_of_int \<lfloor>d\<rfloor> = d \<and> - (2 ^ 31) \<le> d \<and> d < 2 ^ 31)"
    by (simp only: floor_eq_iff_Ints) simp
  with False show ?thesis by (simp only: fromCJSON_CreateNumber) simp
qed

lemma out_of_int_range_differs:
  assumes "\<not> (- (2 ^ 31) \<le> d \<and> d < 2 ^ 31)"
  shows "real_of_int (sint (w :: c_int)) \<noteq> d"
proof -
  have "- (2 ^ 31) \<le> sint w" "sint w < 2 ^ 31"
    using sint_ge [of w] sint_lt [of w] by simp_all
  then have "- (2 ^ 31) \<le> real_of_int (sint w)" "real_of_int (sint w) < 2 ^ 31"
    by (simp_all del: of_int_sint)
  with assms show ?thesis by auto
qed

lemma integer_node:
  "fromCJSON (cJSON_CreateNumber (real_of_int (sint i))) = Integer i"
  by (simp add: cJSON_CreateNumber_def c_int_of_double_sint del: of_int_sint)

text \<open>The container: assignment is a map update and keeps the keys ascending.\<close>

lemma map_of_map_assign:
  "map_of (map_assign m k v) = (map_of m)(k \<mapsto> v)"
  by (induction m k v rule: map_assign.induct) (auto simp: fun_upd_twist)

lemma keys_map_assign:
  "fst ` set (map_assign m k v) = insert k (fst ` set m)"
  by (induction m k v rule: map_assign.induct) auto

lemma sorted_map_assign:
  "sorted_wrt (<) (map fst m) \<Longrightarrow> sorted_wrt (<) (map fst (map_assign m k v))"
proof (induction m k v rule: map_assign.induct)
  case (1 k v)
  then show ?case by simp
next
  case (2 k' v' m k v)
  show ?case
  proof (cases "k < k'")
    case True
    with "2.prems" show ?thesis by (auto intro: less_trans)
  next
    case False
    note nlt = this
    show ?thesis
    proof (cases "k = k'")
      case True
      with "2.prems" show ?thesis by auto
    next
      case False
      with nlt have gt: "k' < k" by auto
      have "sorted_wrt (<) (map fst (map_assign m k v))"
        using "2.IH" nlt False "2.prems" by simp
      moreover have "\<forall>x \<in> fst ` set (map_assign m k v). k' < x"
        using "2.prems" gt by (auto simp: keys_map_assign)
      ultimately show ?thesis using nlt False by auto
    qed
  qed
qed

lemma map_assign_last:
  "\<forall>e \<in> set m. fst e < k \<Longrightarrow> map_assign m k v = m @ [(k, v)]"
  by (induction m k v rule: map_assign.induct) auto

lemma fold_map_assign_sorted:
  "sorted_wrt (<) (map fst (acc @ m)) \<Longrightarrow>
     fold (\<lambda>(k, v) a. map_assign a k v) m acc = acc @ m"
proof (induction m arbitrary: acc)
  case Nil
  then show ?case by simp
next
  case (Cons e m)
  obtain k v where e: "e = (k, v)" by (cases e)
  from Cons.prems have "\<forall>x \<in> set acc. fst x < k"
    by (auto simp: e sorted_wrt_append)
  then have "map_assign acc k v = acc @ [(k, v)]" by (rule map_assign_last)
  moreover from Cons.prems have "sorted_wrt (<) (map fst ((acc @ [(k, v)]) @ m))"
    by (simp add: e)
  ultimately show ?case using Cons.IH [of "acc @ [(k, v)]"] by (simp add: e)
qed

lemma strict_sorted_distinct:
  "sorted_wrt (<) (xs :: string list) \<Longrightarrow> distinct xs"
  by (induction xs) auto

lemma keys_fold_map_assign:
  "fst ` set (fold (\<lambda>(k, v) a. map_assign a k v) T acc) = fst ` set T \<union> fst ` set acc"
proof (induction T arbitrary: acc)
  case Nil
  show ?case by simp
next
  case (Cons e T)
  obtain k v where e: "e = (k, v)" by (cases e)
  show ?case by (simp add: e Cons.IH keys_map_assign)
qed

lemma sorted_fold_map_assign:
  "sorted_wrt (<) (map fst acc) \<Longrightarrow>
     sorted_wrt (<) (map fst (fold (\<lambda>(k, v) a. map_assign a k v) T acc))"
  by (induction T arbitrary: acc) (auto simp: sorted_map_assign)

lemma fold_map_assign_eq_iff:
  assumes "map fst T = map c_str (map fst m)"
  shows "fold (\<lambda>(k, v) a. map_assign a k v) T [] = m \<longleftrightarrow>
           T = m \<and> sorted_wrt (<) (map fst m)"
proof
  assume r: "fold (\<lambda>(k, v) a. map_assign a k v) T [] = m"
  have srt: "sorted_wrt (<) (map fst m)"
    using sorted_fold_map_assign [of "[]" T] r by simp
  have "fst ` set m = fst ` set T"
    using keys_fold_map_assign [of T "[]"] r by simp
  also have "\<dots> = set (map fst T)" by simp
  also have "\<dots> = c_str ` fst ` set m" by (simp add: assms image_image)
  finally have ks: "fst ` set m = c_str ` fst ` set m" .
  have "\<forall>k \<in> set (map fst m). c_str k = k"
  proof
    fix k assume "k \<in> set (map fst m)"
    then have "k \<in> c_str ` fst ` set m" using ks by simp
    then obtain k' where "k = c_str k'" by auto
    then show "c_str k = k" by (simp add: c_str_idem)
  qed
  then have "map c_str (map fst m) = map fst m"
    by (intro map_idI) auto
  with assms have "map fst T = map fst m" by simp
  with srt have "sorted_wrt (<) (map fst ([] @ T))" by simp
  then have "fold (\<lambda>(k, v) a. map_assign a k v) T [] = [] @ T"
    by (rule fold_map_assign_sorted)
  with r have "T = m" by simp
  with srt show "T = m \<and> sorted_wrt (<) (map fst m)" by simp
next
  assume a: "T = m \<and> sorted_wrt (<) (map fst m)"
  then have "sorted_wrt (<) (map fst ([] @ T))" by simp
  then have "fold (\<lambda>(k, v) a. map_assign a k v) T [] = [] @ T"
    by (rule fold_map_assign_sorted)
  with a show "fold (\<lambda>(k, v) a. map_assign a k v) T [] = m" by simp
qed

text \<open>The two loops of \<^verbatim>\<open>fromCJSON\<close> and of \<^verbatim>\<open>toCJSON\<close>.\<close>

lemma toCJSON_list_map: "toCJSON_list l = map toCJSON l"
  by (induction l) simp_all

lemma toCJSON_map_map: "toCJSON_map m = map (\<lambda>(key, v). (c_str key, toCJSON v)) m"
  by (induction m) auto



lemma fromCJSON_array_eq:
  "fromCJSON_array children acc = acc @ map fromCJSON children"
  by (induction children arbitrary: acc) auto

lemma fromCJSON_object_fold:
  "fromCJSON_object children acc =
     fold (\<lambda>(k, v) a. map_assign a k v)
       (map (\<lambda>(key, child). (c_str key, fromCJSON child)) children) acc"
  by (induction children arbitrary: acc) auto

lemma map_of_fromCJSON_object:
  "map_of (fromCJSON_object children acc) =
     map_of acc ++ map_of (rev (map (\<lambda>(key, child). (c_str key, fromCJSON child)) children))"
proof (induction children arbitrary: acc)
  case Nil
  then show ?case by simp
next
  case (Cons a children)
  obtain key child where a: "a = (key, child)" by (cases a)
  show ?case
    by (simp add: a Cons.IH map_of_map_assign map_add_def fun_eq_iff split: option.splits)
qed

lemma sorted_fromCJSON_object:
  "sorted_wrt (<) (map fst acc) \<Longrightarrow> sorted_wrt (<) (map fst (fromCJSON_object children acc))"
proof (induction children arbitrary: acc)
  case Nil
  then show ?case by simp
next
  case (Cons a children)
  obtain key child where a: "a = (key, child)" by (cases a)
  show ?case using Cons.prems by (simp add: a Cons.IH sorted_map_assign)
qed

text \<open>
  The bridge there and back, on trees: a plain value comes back as itself exactly when
  it is safe in the sense above.
\<close>

lemma keys_converted:
  "map fst (map (\<lambda>(key, child). (c_str key, fromCJSON child)) (toCJSON_map m)) =
     map c_str (map fst m)"
  by (induction m) (auto simp: c_str_idem)

lemma fromCJSON_toCJSON_iff:
  "plain v \<Longrightarrow> (fromCJSON (toCJSON v) = v) = roundtrip_safe v"
  "plain_list l \<Longrightarrow> (map fromCJSON (toCJSON_list l) = l) = roundtrip_safe_list l"
  "plain_map m \<Longrightarrow>
     (map (\<lambda>(key, child). (c_str key, fromCJSON child)) (toCJSON_map m) = m) =
       roundtrip_safe_map m"
proof (induction v and l and m rule: toCJSON_toCJSON_list_toCJSON_map.induct)
  case (1 b)
  show ?case by simp
next
  case (3 i)
  show ?case by (simp add: integer_node del: of_int_sint)
next
  case (4 d)
  show ?case by (simp add: double_node_iff)
next
  case (5 s)
  show ?case by (simp add: c_str_idem c_str_eq_iff)
next
  case (6 l)
  then show ?case by (simp add: fromCJSON_array_eq)
next
  case (7 m)
  then have ih: "(map (\<lambda>(key, child). (c_str key, fromCJSON child)) (toCJSON_map m) = m) =
      roundtrip_safe_map m"
    and srt: "sorted_wrt (<) (map fst m)"
    by simp_all
  show ?case
    using fold_map_assign_eq_iff [OF keys_converted [of m]] ih srt
    by (simp add: fromCJSON_object_fold)
next
  case (14 key v rest)
  then show ?case by (auto simp: c_str_idem c_str_eq_iff)
qed auto

text \<open>
  C3, as amended. The claim: for every value \<open>v\<close> built only from \<^verbatim>\<open>Boolean\<close>,
  \<^verbatim>\<open>Integer\<close>, \<^verbatim>\<open>Double\<close>, \<^verbatim>\<open>String\<close>, \<^verbatim>\<open>List\<close> and \<^verbatim>\<open>Map\<close>, parsing the
  compact serialization of \<open>v\<close> yields \<open>v\<close>. It fails for a \<^verbatim>\<open>Double\<close> that holds an
  integer an \<^verbatim>\<open>int\<close> can hold, and for a string or a key that holds a NUL byte. What
  holds, for such a \<open>v\<close> and a library whose parser reads the text that the compact
  printer returned for the tree of \<open>v\<close> back to that tree: parsing the compact
  serialization of \<open>v\<close> succeeds with \<open>v\<close> exactly when no \<^verbatim>\<open>Double\<close> in \<open>v\<close> holds
  an integer in the range of \<^verbatim>\<open>int\<close> and no string or key in \<open>v\<close> holds a NUL byte.
\<close>

theorem roundtrip_parse_serialize:
  assumes "plain v"
    and "cJSON_Parse lib (c_str (cJSON_PrintUnformatted lib (toCJSON v))) = Some (toCJSON v)"
  shows "(fromJSON lib (toJSON lib v False) = (v, True) \<longleftrightarrow> roundtrip_safe v) \<and>
         (fromCJSON (toCJSON v) = v \<longleftrightarrow> roundtrip_safe v)"
  using assms by (simp add: fromJSON_def toJSON_def fromCJSON_toCJSON_iff(1))

theorem roundtrip_parse_serialize_witness:
  "plain example_value \<and> roundtrip_safe example_value \<and>
   toJSON (table_library [(toCJSON example_value, example_text)]) example_value False =
     example_text \<and>
   fromJSON (table_library [(toCJSON example_value, example_text)])
     (toJSON (table_library [(toCJSON example_value, example_text)]) example_value False) =
     (example_value, True)"
proof -
  let ?lib = "table_library [(toCJSON example_value, example_text)]"
  have p: "plain example_value"
    by (simp add: example_value_def)
  have s: "roundtrip_safe example_value"
    by (simp add: example_value_def NUL_def)
  have c: "c_str example_text = example_text"
    by (simp add: c_str_def example_text_def NUL_def quote_def)
  have l: "cJSON_Parse ?lib (c_str (cJSON_PrintUnformatted ?lib (toCJSON example_value))) =
      Some (toCJSON example_value)"
    by (simp add: table_library_def c)
  have t: "toJSON ?lib example_value False = example_text"
    by (simp add: toJSON_def table_library_def c)
  show ?thesis
    using p s t roundtrip_parse_serialize [OF p l] by simp
qed

text \<open>
  Three values built from the six variants that do not come back. \<^verbatim>\<open>Double(5.0)\<close>: its
  tree is the number node for 5, which a library prints as \<^verbatim>\<open>5\<close> and parses back to
  that node, and \<^verbatim>\<open>fromCJSON\<close> makes it \<^verbatim>\<open>Integer(5)\<close>. The string of the three bytes
  \<^verbatim>\<open>a\<close>, NUL, \<^verbatim>\<open>b\<close>: \<^verbatim>\<open>cJSON_CreateString\<close> copies the C string \<^verbatim>\<open>a\<close>. The map
  with a key of the three bytes \<^verbatim>\<open>k\<close>, NUL, \<^verbatim>\<open>2\<close>: the child is added under the C
  string \<^verbatim>\<open>k\<close>.
\<close>

theorem roundtrip_counterexample:
  "plain (Double 5) \<and>
   fst (fromJSON (table_library [(cJSON_CreateNumber 5, ''5'')])
     (toJSON (table_library [(cJSON_CreateNumber 5, ''5'')]) (Double 5) False)) = Integer 5 \<and>
   fst (fromJSON (table_library [(cJSON_CreateNumber 5, ''5'')])
     (toJSON (table_library [(cJSON_CreateNumber 5, ''5'')]) (Double 5) False)) \<noteq> Double 5 \<and>
   plain (String [CHR ''a'', NUL, CHR ''b'']) \<and>
   fst (fromJSON (table_library [(cJSON_String ''a'', [quote, CHR ''a'', quote])])
     (toJSON (table_library [(cJSON_String ''a'', [quote, CHR ''a'', quote])])
        (String [CHR ''a'', NUL, CHR ''b'']) False)) = String ''a'' \<and>
   fst (fromJSON (table_library [(cJSON_String ''a'', [quote, CHR ''a'', quote])])
     (toJSON (table_library [(cJSON_String ''a'', [quote, CHR ''a'', quote])])
        (String [CHR ''a'', NUL, CHR ''b'']) False)) \<noteq> String [CHR ''a'', NUL, CHR ''b''] \<and>
   plain (Map [([CHR ''k'', NUL, CHR ''2''], Boolean True)]) \<and>
   fst (fromJSON (table_library [(cJSON_Object [(''k'', cJSON_True)], ''{'' @ [quote, CHR ''k'', quote] @ '':true}'')])
     (toJSON (table_library [(cJSON_Object [(''k'', cJSON_True)], ''{'' @ [quote, CHR ''k'', quote] @ '':true}'')])
        (Map [([CHR ''k'', NUL, CHR ''2''], Boolean True)]) False)) = Map [(''k'', Boolean True)] \<and>
   fst (fromJSON (table_library [(cJSON_Object [(''k'', cJSON_True)], ''{'' @ [quote, CHR ''k'', quote] @ '':true}'')])
     (toJSON (table_library [(cJSON_Object [(''k'', cJSON_True)], ''{'' @ [quote, CHR ''k'', quote] @ '':true}'')])
        (Map [([CHR ''k'', NUL, CHR ''2''], Boolean True)]) False)) \<noteq>
     Map [([CHR ''k'', NUL, CHR ''2''], Boolean True)]"
  by (simp add: fromJSON_def toJSON_def table_library_def fromCJSON_CreateNumber c_str_def NUL_def
      quote_def)

text \<open>
  C4. A number node becomes an \<^verbatim>\<open>Integer\<close> when its \<^verbatim>\<open>valueint\<close> equals its
  \<^verbatim>\<open>valuedouble\<close>, and a \<^verbatim>\<open>Double\<close> otherwise; for the node the library builds
  for a number this is: an \<^verbatim>\<open>Integer\<close> exactly when the number is an integer that an
  \<^verbatim>\<open>int\<close> can hold. The inputs 5 and 5.0 yield \<^verbatim>\<open>Integer(5)\<close>, the input 5.5 yields
  \<^verbatim>\<open>Double(5.5)\<close>.
\<close>

theorem fromCJSON_number_typing:
  "fromCJSON (cJSON_Number valueint valuedouble) =
     (if real_of_int (sint valueint) = valuedouble then Integer valueint else Double valuedouble) \<and>
   fromCJSON (cJSON_CreateNumber d) =
     (if d \<in> \<int> \<and> - (2 ^ 31) \<le> d \<and> d < 2 ^ 31 then Integer (word_of_int \<lfloor>d\<rfloor>) else Double d) \<and>
   fromCJSON (cJSON_CreateNumber 5) = Integer 5 \<and>
   fromCJSON (cJSON_CreateNumber 5.5) = Double 5.5 \<and>
   fromCJSON (cJSON_CreateNumber 5.0) = Integer 5"
proof -
  have "fromCJSON (cJSON_CreateNumber 5) = Integer 5"
    and "fromCJSON (cJSON_CreateNumber 5.5) = Double 5.5"
    and "fromCJSON (cJSON_CreateNumber 5.0) = Integer 5"
    by (simp_all add: cJSON_CreateNumber_def c_int_of_double_def)
  then show ?thesis
    using fromCJSON_CreateNumber [of d] by simp
qed

text \<open>
  C6. An object node becomes a \<^verbatim>\<open>Map\<close> of its converted children with unique keys,
  in which every key is bound to the conversion of the last child that carries it (a
  lookup in the reversed list of children finds the last occurrence first). The object
  with the children \<^verbatim>\<open>"a": 1\<close> and \<^verbatim>\<open>"a": 2\<close> becomes the \<^verbatim>\<open>Map\<close> with the single
  key \<^verbatim>\<open>a\<close> bound to \<^verbatim>\<open>Integer(2)\<close>.
\<close>

theorem fromCJSON_object_last_wins:
  "(\<exists>m. fromCJSON (cJSON_Object children) = Map m \<and>
        distinct (map fst m) \<and>
        map_of m = map_of (rev (map (\<lambda>(key, child). (c_str key, fromCJSON child)) children))) \<and>
   fromCJSON (cJSON_Object [(''a'', cJSON_CreateNumber 1), (''a'', cJSON_CreateNumber 2)]) =
     Map [(''a'', Integer 2)]"
proof -
  have "sorted_wrt (<) (map fst (fromCJSON_object children []))"
    by (rule sorted_fromCJSON_object) simp
  then have "distinct (map fst (fromCJSON_object children []))"
    by (rule strict_sorted_distinct)
  moreover have "map_of (fromCJSON_object children []) =
      map_of (rev (map (\<lambda>(key, child). (c_str key, fromCJSON child)) children))"
    by (simp add: map_of_fromCJSON_object)
  moreover have "fromCJSON (cJSON_Object [(''a'', cJSON_CreateNumber 1), (''a'', cJSON_CreateNumber 2)]) =
      Map [(''a'', Integer 2)]"
    by (simp add: cJSON_CreateNumber_def c_int_of_double_def c_str_def NUL_def)
  ultimately show ?thesis by simp
qed

text \<open>
  C7. When the parser rejects the text, \<^verbatim>\<open>fromJSON\<close> returns the \<^verbatim>\<open>Invalid\<close> value
  and stores \<^verbatim>\<open>false\<close>; when the parser returns a tree, it returns the conversion of
  that tree and stores \<^verbatim>\<open>true\<close>.
\<close>

theorem fromJSON_parse_result:
  "(cJSON_Parse lib json = None \<longrightarrow> fromJSON lib json = (Invalid, False)) \<and>
   (\<forall>root. cJSON_Parse lib json = Some root \<longrightarrow> fromJSON lib json = (fromCJSON root, True))"
  by (simp add: fromJSON_def)

theorem fromJSON_parse_result_witness:
  "fromJSON (table_library [(cJSON_True, ''true'')]) ''tru'' = (Invalid, False) \<and>
   fromJSON (table_library [(cJSON_True, ''true'')]) ''true'' = (Boolean True, True)"
  using fromJSON_parse_result [of "table_library [(cJSON_True, ''true'')]" "''tru''"]
    fromJSON_parse_result [of "table_library [(cJSON_True, ''true'')]" "''true''"]
  by (simp add: table_library_def)

text \<open>
  C8, as amended. The claim: for every \<^verbatim>\<open>Custom\<close> value the JSON streaming formatter
  escapes the payload's text as it does for a \<^verbatim>\<open>String\<close>, whereas \<^verbatim>\<open>toCJSON\<close> emits
  the same text as a raw string node. It fails for a payload text that holds a NUL
  byte, which reaches the node cut at that byte. What holds, for a \<^verbatim>\<open>Custom\<close> value
  whose handle holds a payload: the formatter emits the escaped form of the payload's
  text, as it does for the \<^verbatim>\<open>String\<close> with that text (for a text of bytes below
  \<open>0x80\<close>, and for every text where plain \<^verbatim>\<open>char\<close> is unsigned, that is the text
  escaped byte by byte between quotes), whereas
  \<^verbatim>\<open>toCJSON\<close> makes a raw string node of the text up to its first NUL byte, the whole
  text when it holds none, where it makes an ordinary string node for the
  \<^verbatim>\<open>String\<close>.
\<close>

theorem custom_escaped_in_formatter_raw_in_tree:
  "JSONFormatter_format p (Custom (Some tx)) = JSONFormatter_format p (String tx) \<and>
   JSONFormatter_format p (Custom (Some tx)) = Some (escape (char_signed p) tx) \<and>
   ((char_signed p \<longrightarrow> (\<forall>c \<in> set tx. (of_char c :: nat) < 128)) \<longrightarrow>
      JSONFormatter_format p (Custom (Some tx)) = Some ([quote] @ concat (map esc_byte tx) @ [quote])) \<and>
   toCJSON (Custom (Some tx)) = cJSON_RawString (c_str tx) \<and>
   toCJSON (String tx) = cJSON_String (c_str tx) \<and>
   (NUL \<notin> set tx \<longrightarrow> toCJSON (Custom (Some tx)) = cJSON_RawString tx)"
  using escape_as_specified [of "char_signed p" tx]
  by (simp add: c_str_no_NUL escape_spec_def)

theorem custom_escaped_in_formatter_raw_in_tree_witness:
  "list_all (\<lambda>c. (of_char c :: nat) < 128) [CHR ''a'', quote, CHR ''b''] \<and>
   NUL \<notin> set [CHR ''a'', quote, CHR ''b''] \<and>
   toCJSON (Custom (Some [CHR ''a'', quote, CHR ''b''])) = cJSON_RawString [CHR ''a'', quote, CHR ''b''] \<and>
   JSONFormatter_format x86_64 (Custom (Some [CHR ''a'', quote, CHR ''b''])) =
     Some [quote, CHR ''a'', backslash, quote, CHR ''b'', quote] \<and>
   JSONFormatter_format x86_64 (String [CHR ''a'', quote, CHR ''b'']) =
     Some [quote, CHR ''a'', backslash, quote, CHR ''b'', quote]"
proof -
  have a: "\<forall>c \<in> set [CHR ''a'', quote, CHR ''b'']. (of_char c :: nat) < 128"
    by (simp add: quote_def)
  have n: "NUL \<notin> set [CHR ''a'', quote, CHR ''b'']" by (simp add: NUL_def quote_def)
  have e: "concat (map esc_byte [CHR ''a'', quote, CHR ''b'']) = [CHR ''a'', backslash, quote, CHR ''b'']"
    by (simp add: esc_byte_def quote_def)
  show ?thesis
    using a n e custom_escaped_in_formatter_raw_in_tree [of x86_64 "[CHR ''a'', quote, CHR ''b'']"]
    by (simp add: list_all_iff)
qed

text \<open>
  The payload text of the three bytes \<^verbatim>\<open>a\<close>, NUL, \<^verbatim>\<open>b\<close> reaches the tree as the raw
  text \<^verbatim>\<open>a\<close>, while the formatter escapes all three bytes. A \<^verbatim>\<open>Custom\<close> value whose
  handle is null has no payload text: \<^verbatim>\<open>toCJSON\<close> tests the handle and makes a null
  node, the formatter dereferences it.
\<close>

theorem custom_payload_counterexample:
  "toCJSON (Custom (Some [CHR ''a'', NUL, CHR ''b''])) = cJSON_RawString ''a'' \<and>
   toCJSON (Custom (Some [CHR ''a'', NUL, CHR ''b''])) \<noteq> cJSON_RawString [CHR ''a'', NUL, CHR ''b''] \<and>
   JSONFormatter_format x86_64 (Custom (Some [CHR ''a'', NUL, CHR ''b''])) =
     Some ([quote, CHR ''a'', backslash] @ ''u0000b'' @ [quote]) \<and>
   JSONFormatter_format x86_64 (Custom None) = None \<and>
   toCJSON (Custom None) = cJSON_NULL"
  by (simp add: c_str_def NUL_def x86_64_def escape_defs Let_def numeral_3_eq_3)

lemma dec_nat_digits: "dec_nat n \<noteq> [] \<and> hd (dec_nat n) \<in> set ''0123456789''"
proof (induction n rule: dec_nat.induct)
  case (1 n)
  show ?case
  proof (cases "n < 10")
    case True
    then have "dec_digit n \<in> set ''0123456789''"
      unfolding dec_digit_def by (intro nth_mem) simp
    with True show ?thesis by (subst dec_nat.simps, subst dec_nat.simps) simp
  next
    case False
    with "1.IH" show ?thesis by (subst dec_nat.simps, subst dec_nat.simps) simp
  qed
qed

lemma printf_d_not_quoted: "printf_d v \<noteq> quote # body"
proof
  assume a: "printf_d v = quote # body"
  show False
  proof (cases "v < 0")
    case True
    with a show False by (simp add: printf_d_def quote_def)
  next
    case False
    with a have "dec_nat (nat v) = quote # body" by (simp add: printf_d_def)
    with dec_nat_digits [of "nat v"] show False by (simp add: quote_def)
  qed
qed

text \<open>
  C9. For a \<^verbatim>\<open>Date\<close> value, \<^verbatim>\<open>toCJSON\<close> makes the number node that holds the time
  value, the node it makes for the \<^verbatim>\<open>Integer\<close> of that value; \<^verbatim>\<open>fromCJSON\<close> turns
  it into that \<^verbatim>\<open>Integer\<close>, not into the \<^verbatim>\<open>Date\<close>. The JSON streaming formatter
  sends what it sends for the \<^verbatim>\<open>String\<close> that \<^verbatim>\<open>String::formatTime\<close> returns: for a
  time text of bytes below \<open>0x80\<close>, and for every time text where plain \<^verbatim>\<open>char\<close> is
  unsigned, the text escaped byte by byte between quotes, which is the text itself
  between quotes when nothing in it needs escaping. That is never the text it sends
  for an \<^verbatim>\<open>Integer\<close>, the decimal digits.
\<close>

theorem date_number_in_tree_text_in_formatter:
  "toCJSON (Date t) = cJSON_Number t (real_of_int (sint t)) \<and>
   toCJSON (Date t) = toCJSON (Integer t) \<and>
   fromCJSON (toCJSON (Date t)) = Integer t \<and>
   fromCJSON (toCJSON (Date t)) \<noteq> Date t \<and>
   JSONFormatter_format p (Date t) = JSONFormatter_format p (String (formatTime p t)) \<and>
   ((char_signed p \<longrightarrow> (\<forall>c \<in> set (formatTime p t). (of_char c :: nat) < 128)) \<longrightarrow>
      JSONFormatter_format p (Date t) =
        Some ([quote] @ concat (map esc_byte (formatTime p t)) @ [quote])) \<and>
   ((\<forall>c \<in> set (formatTime p t). (of_char c :: nat) < 128 \<and> esc_byte c = [c]) \<longrightarrow>
      JSONFormatter_format p (Date t) = Some ([quote] @ formatTime p t @ [quote])) \<and>
   JSONFormatter_format p (Integer i) = Some (printf_d (sint i)) \<and>
   JSONFormatter_format p (Date t) \<noteq> JSONFormatter_format p (Integer i)"
proof -
  have "toCJSON (Date t) = cJSON_Number t (real_of_int (sint t))"
    by (simp add: cJSON_CreateNumber_def c_int_of_double_sint del: of_int_sint)
  moreover have "fromCJSON (cJSON_Number t (real_of_int (sint t))) = Integer t"
    by (simp del: of_int_sint)
  moreover have "toCJSON (Integer t) = cJSON_Number t (real_of_int (sint t))"
    by (simp add: cJSON_CreateNumber_def c_int_of_double_sint del: of_int_sint)
  moreover have "(char_signed p \<longrightarrow> (\<forall>c \<in> set (formatTime p t). (of_char c :: nat) < 128)) \<longrightarrow>
      escape (char_signed p) (formatTime p t) =
        [quote] @ concat (map esc_byte (formatTime p t)) @ [quote]"
    using escape_as_specified [of "char_signed p" "formatTime p t"] by (simp add: escape_spec_def)
  moreover have "(\<forall>c \<in> set (formatTime p t). (of_char c :: nat) < 128 \<and> esc_byte c = [c]) \<longrightarrow>
      escape (char_signed p) (formatTime p t) = [quote] @ formatTime p t @ [quote]"
  proof
    assume a: "\<forall>c \<in> set (formatTime p t). (of_char c :: nat) < 128 \<and> esc_byte c = [c]"
    then have "concat (map esc_byte (formatTime p t)) = formatTime p t"
      by (intro concat_esc_byte_id) simp
    moreover from a have "escape (char_signed p) (formatTime p t) = escape_spec (formatTime p t)"
      by (intro escape_ascii) simp
    ultimately show "escape (char_signed p) (formatTime p t) = [quote] @ formatTime p t @ [quote]"
      by (simp add: escape_spec_def)
  qed
  moreover have "escape (char_signed p) (formatTime p t) \<noteq> printf_d (sint i)"
    using escape_quoted [of "char_signed p" "formatTime p t"] printf_d_not_quoted [of "sint i"]
    by metis
  ultimately show ?thesis by (simp del: of_int_sint)
qed

theorem date_number_in_tree_text_in_formatter_witness:
  "list_all (\<lambda>c. (of_char c :: nat) < 128 \<and> esc_byte c = [c]) (formatTime utc_clock 0) \<and>
   JSONFormatter_format utc_clock (Date 0) = Some ([quote] @ ''1970-01-01 00:00:00'' @ [quote]) \<and>
   JSONFormatter_format utc_clock (Integer 0) = Some ''0'' \<and>
   toCJSON (Date 0) = cJSON_Number 0 0 \<and>
   fromCJSON (toCJSON (Date 0)) = Integer 0"
proof -
  have a: "\<forall>c \<in> set (formatTime utc_clock 0). (of_char c :: nat) < 128 \<and> esc_byte c = [c]"
    by (simp add: utc_clock_def esc_byte_def)
  have f: "formatTime utc_clock 0 = ''1970-01-01 00:00:00''"
    by (simp add: utc_clock_def)
  have d: "printf_d (sint (0 :: c_int)) = ''0''"
    by (simp add: printf_d_def dec_digit_def)
  show ?thesis
    using a d date_number_in_tree_text_in_formatter [of 0 utc_clock 0]
    by (simp add: f list_all_iff del: of_int_sint)
qed

subsection \<open>The indented formatter\<close>

text \<open>Every call of the formatter returns with \<^verbatim>\<open>indent\<close> as it found it.\<close>

lemma indent_restored:
  "StringFormatter_format p indent v = Some (indent', s) \<Longrightarrow> indent' = indent"
  "StringFormatter_map p indent m = Some (indent', s) \<Longrightarrow> indent' = indent"
  "StringFormatter_list p indent first l = Some (indent', s) \<Longrightarrow> indent' = indent"
proof (induction p indent v and p indent m and p indent first l
    arbitrary: indent' s and indent' s and indent' s
    rule: StringFormatter_format_StringFormatter_map_StringFormatter_list.induct)
  case (8 p indent m)
  then show ?case by (fastforce split: option.splits)
next
  case (9 p indent l)
  then show ?case by (fastforce split: option.splits)
next
  case (12 p indent key v rest)
  then show ?case by (fastforce simp: Let_def split: option.splits)
next
  case (14 p indent first v rest)
  then show ?case by (fastforce split: option.splits)
qed (auto split: option.splits)

text \<open>A width never cuts the one-space string: at least one space is printed.\<close>

lemma printf_star_s_space:
  assumes "0 \<le> w"
  shows "printf_star_s w (c_str '' '') = replicate (max 1 (nat w)) CHR '' ''"
proof -
  have c: "c_str '' '' = '' ''" by (simp add: c_str_def NUL_def)
  show ?thesis
  proof (cases "nat w")
    case 0
    with assms show ?thesis by (simp add: printf_star_s_def c)
  next
    case (Suc n)
    then have "max 1 (nat w) = Suc n" by simp
    moreover have "replicate n CHR '' '' @ '' '' = replicate (Suc n) CHR '' ''"
      by (simp add: replicate_append_same)
    ultimately show ?thesis using assms Suc by (simp add: printf_star_s_def c)
  qed
qed

lemma StringFormatter_map_lines:
  assumes "1 \<le> d"
    and "list_all2 (\<lambda>(key, v) tx. map_option snd (StringFormatter_format p (int d) v) = Some tx) m txs"
  shows "StringFormatter_map p (int d) m =
    Some (int d, concat (map2 (\<lambda>(key, v) tx. map_line d key tx) m txs))"
  using assms(2)
proof (induction m txs rule: list_all2_induct)
  case Nil
  then show ?case by simp
next
  case (Cons a m tx txs)
  obtain key v where a: "a = (key, v)" by (cases a)
  from Cons.hyps(1) obtain i1 where "StringFormatter_format p (int d) v = Some (i1, tx)"
    by (auto simp: a)
  then have f: "StringFormatter_format p (int d) v = Some (int d, tx)"
    using indent_restored(1) by blast
  have pre: "printf_star_s (int d - 1) (c_str '' '') = replicate (max 1 (d - 1)) CHR '' ''"
    using printf_star_s_space [of "int d - 1"] assms(1) by (simp add: nat_diff_distrib)
  show ?case
    by (simp add: a f Cons.IH pre map_line_def sink_output_def)
qed

lemma StringFormatter_list_separated:
  assumes "list_all2 (\<lambda>v tx. map_option snd (StringFormatter_format p indent v) = Some tx) l txs"
  shows "StringFormatter_list p indent first l =
    Some (indent, (if first \<or> l = [] then [] else '','') @ separated '','' txs)"
  using assms
proof (induction l txs arbitrary: first rule: list_all2_induct)
  case Nil
  then show ?case by simp
next
  case (Cons v l tx txs)
  from Cons.hyps(1) obtain i1 where "StringFormatter_format p indent v = Some (i1, tx)"
    by auto
  then have f: "StringFormatter_format p indent v = Some (indent, tx)"
    using indent_restored(1) by blast
  have ih: "StringFormatter_list p indent False l =
      Some (indent, (if l = [] then [] else '','') @ separated '','' txs)"
    using Cons.IH [of False] by simp
  show ?case
  proof (cases txs)
    case Nil
    with Cons.hyps(2) have "l = []" by simp
    with Nil show ?thesis by (simp add: f sink_output_def)
  next
    case (Cons y ys)
    with \<open>list_all2 _ l txs\<close> have "l \<noteq> []" by auto
    with Cons ih show ?thesis by (simp add: f sink_output_def)
  qed
qed

text \<open>
  C2. The claim: the indented formatter renders a list as its elements separated by a
  comma and a space, between an opening bracket with a space and a space with a closing
  bracket, so that the list of 1 and \<^verbatim>\<open>"x"\<close> reads \<^verbatim>\<open>[ 1, x ]\<close>. The code passes
  the literals \<^verbatim>\<open>"[ "\<close> and \<^verbatim>\<open>", "\<close> with the length 1, so the sink receives the
  bracket and the comma without their spaces; only the closing literal is sent whole.
\<close>

theorem StringFormatter_list_literal:
  "Value_format x86_64 (List [Integer 1, String ''x'']) = Some ''[1,x ]''"
  by (simp add: Value_format_def sink_output_def printf_d_def dec_digit_def)

text \<open>
  What the \<^verbatim>\<open>Map\<close> loop emits at every depth \<open>d \<ge> 1\<close>, and a list at the depth it
  stands at: list nesting leaves the depth alone. From depth 2 on the prefix is
  \<open>d - 1\<close> spaces.
\<close>

lemma StringFormatter_map_rendering:
  assumes "1 \<le> d"
  shows "(list_all2 (\<lambda>(key, v) tx. map_option snd (StringFormatter_format p (int d) v) = Some tx) m txs \<longrightarrow>
          StringFormatter_format p (int d - 1) (Map m) =
            Some (int d - 1, concat (map2 (\<lambda>(key, v) tx. map_line d key tx) m txs))) \<and>
         (list_all2 (\<lambda>v tx. map_option snd (StringFormatter_format p (int d) v) = Some tx) l txs' \<longrightarrow>
          StringFormatter_format p (int d) (List l) =
            Some (int d, ''['' @ separated '','' txs' @ '' ]''))"
  using StringFormatter_map_lines [OF assms, of p m txs]
    StringFormatter_list_separated [of p "int d" l txs' True]
  by (simp add: sink_output_def)

lemma map_line_from_depth_two:
  "2 \<le> d \<Longrightarrow>
     map_line d key tx = replicate (d - 1) CHR '' '' @ c_str key @ '': '' @ tx @ [newline]"
  by (simp add: map_line_def max_def)

text \<open>
  C5. The claim: a map at \<^verbatim>\<open>Map\<close>-nesting depth \<open>d\<close> is rendered as one line per
  entry, each with \<open>d - 1\<close> leading spaces, the key, a colon and a space, the
  formatted value and a newline. The code prints the prefix with \<^verbatim>\<open>%*s\<close>, the width
  \<^verbatim>\<open>indent - 1\<close> and the one-space string: a width pads and never cuts, so at depth
  1, where the width is 0, the line still starts with one space where the claim has
  none, and the entries of a map nested in it, at depth 2, start with one space too.
\<close>

theorem StringFormatter_map_depth_one:
  "Value_format x86_64 (Map [(''a'', Integer 1)]) = Some ('' a: 1'' @ [newline]) \<and>
   Value_format x86_64 (Map [(''a'', Map [(''b'', Integer 1)])]) =
     Some ('' a:  b: 1'' @ [newline, newline])"
  by (simp add: Value_format_def sink_output_def printf_d_def dec_digit_def printf_star_s_def
      c_str_def NUL_def)

text \<open>
  C10. For the \<^verbatim>\<open>Invalid\<close> and the \<^verbatim>\<open>Undefined\<close> value the indented formatter emits
  exactly the text \<^verbatim>\<open>null\<close>, at any indentation.
\<close>

theorem StringFormatter_null:
  "StringFormatter_format p indent Invalid = Some (indent, ''null'') \<and>
   StringFormatter_format p indent Undefined = Some (indent, ''null'') \<and>
   Value_format p Invalid = Some ''null'' \<and>
   Value_format p Undefined = Some ''null''"
  by (simp add: Value_format_def sink_output_def)

end
